theory Spec2Isabelle
  imports Main "HOL-Library.Word" "HOL-Library.Code_Target_Numeral"
begin

unbundle bit_operations_syntax

section \<open>Go library functions used by the sources\<close>

text \<open>
  Byte slices and Go strings are both modelled as \<open>string\<close> (a list of 8-bit
  characters). Go's \<open>int\<close> is the 64-bit integer of the amd64 build; it is
  modelled as \<open>int\<close> with the range checks and the wrap-around written out
  where the code can reach them.
\<close>

definition minInt64 :: int where
  "minInt64 = - (2 ^ 63)"

definition maxInt64 :: int where
  "maxInt64 = 2 ^ 63 - 1"

definition isDigit :: "char \<Rightarrow> bool" where
  "isDigit c = (48 \<le> (of_char c :: nat) \<and> (of_char c :: nat) \<le> 57)"

definition digitChar :: "nat \<Rightarrow> char" where
  "digitChar d = char_of (48 + d)"

definition digitVal :: "char \<Rightarrow> nat" where
  "digitVal c = (of_char c :: nat) - 48"

text \<open>\<open>strings.HasSuffix\<close> and \<open>strings.TrimSuffix\<close>.\<close>

definition HasSuffix :: "string \<Rightarrow> string \<Rightarrow> bool" where
  "HasSuffix s suffix =
     (length suffix \<le> length s \<and> drop (length s - length suffix) s = suffix)"

definition TrimSuffix :: "string \<Rightarrow> string \<Rightarrow> string" where
  "TrimSuffix s suffix =
     (if HasSuffix s suffix then take (length s - length suffix) s else s)"

text \<open>
  \<open>strings.LastIndex(s, "_")\<close> for a one-byte separator: the index of its last
  occurrence, or \<open>-1\<close>.
\<close>

definition LastIndex :: "string \<Rightarrow> char \<Rightarrow> int" where
  "LastIndex s c =
     (if c \<in> set s
      then int (length s) - 1 - int (length (takeWhile (\<lambda>x. x \<noteq> c) (rev s)))
      else - 1)"

text \<open>
  \<open>filepath.Ext\<close> (Unix): scan from the end of the path; stop at a path
  separator; the extension starts at the first dot met.
\<close>

definition Ext :: "string \<Rightarrow> string" where
  "Ext path =
     (case dropWhile (\<lambda>c. c \<noteq> CHR ''.'' \<and> c \<noteq> CHR ''/'') (rev path) of
        [] \<Rightarrow> []
      | c # _ \<Rightarrow>
          if c = CHR ''.''
          then CHR ''.'' # rev (takeWhile (\<lambda>c. c \<noteq> CHR ''.'' \<and> c \<noteq> CHR ''/'') (rev path))
          else [])"

text \<open>\<open>strconv.Itoa\<close>: decimal digits, with a leading minus sign for negatives.\<close>

fun decDigits :: "nat \<Rightarrow> string" where
  "decDigits n = (if n < 10 then [digitChar n] else decDigits (n div 10) @ [digitChar (n mod 10)])"

declare decDigits.simps [simp del]

definition Itoa :: "int \<Rightarrow> string" where
  "Itoa i = (if i < 0 then CHR ''-'' # decDigits (nat (- i)) else decDigits (nat i))"

text \<open>
  \<open>strconv.Atoi\<close>: an optional sign, then one or more decimal digits. Go
  returns a value together with the error: zero with a syntax error, the
  nearest bound of the 64-bit \<open>int\<close> with a range error.
\<close>

datatype NumError = ErrSyntax | ErrRange

fun decValue :: "nat \<Rightarrow> string \<Rightarrow> nat" where
  "decValue acc [] = acc"
| "decValue acc (c # cs) = decValue (acc * 10 + digitVal c) cs"

definition parseDec :: "string \<Rightarrow> nat option" where
  "parseDec s = (if s \<noteq> [] \<and> list_all isDigit s then Some (decValue 0 s) else None)"

definition inInt64 :: "int \<Rightarrow> bool" where
  "inInt64 i = (minInt64 \<le> i \<and> i \<le> maxInt64)"

definition Atoi :: "string \<Rightarrow> int \<times> NumError option" where
  "Atoi s =
     (case s of
        [] \<Rightarrow> (0, Some ErrSyntax)
      | c # cs \<Rightarrow>
          (case (if c = CHR ''-'' \<or> c = CHR ''+'' then parseDec cs else parseDec s) of
             None \<Rightarrow> (0, Some ErrSyntax)
           | Some n \<Rightarrow>
               (let i = (if c = CHR ''-'' then - int n else int n)
                in if i > maxInt64 then (maxInt64, Some ErrRange)
                   else if i < minInt64 then (minInt64, Some ErrRange)
                   else (i, None))))"

section \<open>File sink: indexed file names\<close>

definition getFileIndex :: "string \<Rightarrow> int" where
  "getFileIndex name =
     (let ext = Ext name;
          withoutExt = TrimSuffix name ext;
          idx = LastIndex withoutExt CHR ''_''
      in if idx \<noteq> - 1
         then (case Atoi (drop (nat (idx + 1)) withoutExt) of
                 (i, None) \<Rightarrow> i
               | (i, Some err) \<Rightarrow> - 1)
         else - 1)"

text \<open>
  The first half of \<open>setFileIndex\<close>: the name without its extension and without
  a numeric \<open>_<N>\<close> suffix, that is the value of \<open>withoutExt\<close> when the
  function builds its result.
\<close>

definition indexStem :: "string \<Rightarrow> string" where
  "indexStem name =
     (let ext = Ext name;
          withoutExt = TrimSuffix name ext;
          i = LastIndex withoutExt CHR ''_''
      in if i \<noteq> - 1
         then (case Atoi (drop (nat (i + 1)) withoutExt) of
                 (n, None) \<Rightarrow> take (nat i) withoutExt
               | (n, Some err) \<Rightarrow> withoutExt)
         else withoutExt)"

definition setFileIndex :: "string \<Rightarrow> int \<Rightarrow> string" where
  "setFileIndex name idx = indexStem name @ ''_'' @ Itoa idx @ Ext name"

section \<open>Settings: the buffer-size parser\<close>

text \<open>
  \<open>strconv.ParseInt(s, 0, 64)\<close>, the only form \<open>bufferParser\<close> calls. With
  base 0 the base comes from the prefix (\<open>0b\<close>, \<open>0o\<close>, \<open>0x\<close>, a bare
  leading \<open>0\<close> for octal, decimal otherwise) and underscores may separate
  digits. Go returns a value together with the error; both are modelled.
\<close>

definition maxUint64 :: nat where
  "maxUint64 = 2 ^ 64 - 1"

text \<open>\<open>lower(c) = c | ('x' - 'X')\<close>: sets bit 5 of the byte.\<close>

definition lower :: "char \<Rightarrow> char" where
  "lower c = char_of ((of_char c :: nat) OR 32)"

definition isLowerLetter :: "char \<Rightarrow> bool" where
  "isLowerLetter c = (97 \<le> (of_char c :: nat) \<and> (of_char c :: nat) \<le> 122)"

text \<open>
  The digit loop of \<open>ParseUint\<close>. The accumulator is the value so far and
  whether an underscore was seen; the result is the first error met or the
  final accumulator.
\<close>

fun parseDigits :: "bool \<Rightarrow> nat \<Rightarrow> nat \<Rightarrow> bool \<Rightarrow> string \<Rightarrow> (nat \<times> NumError) + (nat \<times> bool)" where
  "parseDigits base0 base n underscores [] = Inr (n, underscores)"
| "parseDigits base0 base n underscores (c # cs) =
     (if c = CHR ''_'' \<and> base0 then parseDigits base0 base n True cs
      else if \<not> isDigit c \<and> \<not> isLowerLetter (lower c) then Inl (0, ErrSyntax)
      else
        (let d = (if isDigit c then digitVal c
                  else (of_char (lower c) :: nat) - 97 + 10)
         in if d \<ge> base then Inl (0, ErrSyntax)
            else if n \<ge> maxUint64 div base + 1 then Inl (maxUint64, ErrRange)
            else if n * base + d > maxUint64 then Inl (maxUint64, ErrRange)
            else parseDigits base0 base (n * base + d) underscores cs))"

text \<open>
  \<open>underscoreOK\<close>: underscores may only stand between digits, or between a base
  prefix and a digit. The state \<open>i\<close> is the kind of the preceding character:
  \<open>0\<close> a digit, \<open>_\<close> an underscore, \<open>!\<close> anything else, \<open>^\<close> at the start.
\<close>

fun underscoreScan :: "bool \<Rightarrow> char \<Rightarrow> string \<Rightarrow> bool" where
  "underscoreScan hex i [] = (i \<noteq> CHR ''_'')"
| "underscoreScan hex i (c # cs) =
     (if isDigit c \<or> (hex \<and> 97 \<le> (of_char (lower c) :: nat) \<and> (of_char (lower c) :: nat) \<le> 102)
      then underscoreScan hex CHR ''0'' cs
      else if c = CHR ''_''
      then (if i \<noteq> CHR ''0'' then False else underscoreScan hex CHR ''_'' cs)
      else if i = CHR ''_'' then False
      else underscoreScan hex CHR ''!'' cs)"

definition underscoreOK :: "string \<Rightarrow> bool" where
  "underscoreOK s0 =
     (let s = (case s0 of c # cs \<Rightarrow> if c = CHR ''-'' \<or> c = CHR ''+'' then cs else s0 | [] \<Rightarrow> s0)
      in case s of
           a # b # rest \<Rightarrow>
             if a = CHR ''0'' \<and> (lower b = CHR ''b'' \<or> lower b = CHR ''o'' \<or> lower b = CHR ''x'')
             then underscoreScan (lower b = CHR ''x'') CHR ''0'' rest
             else underscoreScan False CHR ''^'' s
         | _ \<Rightarrow> underscoreScan False CHR ''^'' s)"

definition ParseUint0 :: "string \<Rightarrow> nat \<times> NumError option" where
  "ParseUint0 s0 =
     (if s0 = [] then (0, Some ErrSyntax)
      else
        (let (base, s) =
               (if hd s0 = CHR ''0''
                then (if length s0 \<ge> 3 \<and> lower (s0 ! 1) = CHR ''b'' then (2, drop 2 s0)
                      else if length s0 \<ge> 3 \<and> lower (s0 ! 1) = CHR ''o'' then (8, drop 2 s0)
                      else if length s0 \<ge> 3 \<and> lower (s0 ! 1) = CHR ''x'' then (16, drop 2 s0)
                      else (8, drop 1 s0))
                else (10 :: nat, s0))
         in case parseDigits True base 0 False s of
              Inl (v, e) \<Rightarrow> (v, Some e)
            | Inr (n, underscores) \<Rightarrow>
                if underscores \<and> \<not> underscoreOK s0 then (0, Some ErrSyntax)
                else (n, None)))"

definition ParseInt0 :: "string \<Rightarrow> int \<times> NumError option" where
  "ParseInt0 s0 =
     (if s0 = [] then (0, Some ErrSyntax)
      else
        (let neg = (hd s0 = CHR ''-'');
             s = (if hd s0 = CHR ''+'' \<or> hd s0 = CHR ''-'' then tl s0 else s0);
             (un, err) = ParseUint0 s
         in if err = Some ErrSyntax then (0, err)
            else if \<not> neg \<and> un \<ge> 2 ^ 63 then (maxInt64, Some ErrRange)
            else if neg \<and> un > 2 ^ 63 then (minInt64, Some ErrRange)
            else (if neg then - int un else int un, None)))"

text \<open>
  The regular expressions of \<open>bufferParser\<close>, as predicates on the bytes.
  \<open>(?i)[\da-f_]\<close> is a digit, a letter \<open>a\<close> to \<open>f\<close> of either case, or an
  underscore; \<open>^\<close> and \<open>$\<close> anchor at the ends of the text. Under \<open>(?i)\<close> Go
  folds \<open>k\<close> also to the Kelvin sign U+212A (bytes E2 84 AA).
\<close>

definition numClass :: "char \<Rightarrow> bool" where
  "numClass c = (isDigit c \<or> c \<in> set ''abcdefABCDEF'' \<or> c = CHR ''_'')"

definition rB :: "string \<Rightarrow> bool" where
  "rB s =
     ((s \<noteq> [] \<and> list_all numClass s) \<or>
      (case s of
         a # b # rest \<Rightarrow>
           a = CHR ''0'' \<and> b \<in> set ''bxoBXO'' \<and> rest \<noteq> [] \<and> list_all numClass rest
       | _ \<Rightarrow> False))"

definition unitMatch :: "string list \<Rightarrow> string \<Rightarrow> bool" where
  "unitMatch units s = (\<exists>u \<in> set units. HasSuffix s u \<and> rB (take (length s - length u) s))"

definition rKB :: "string \<Rightarrow> bool" where
  "rKB = unitMatch [''kb'', ''kB'', ''Kb'', ''KB'',
                    [CHR 0xE2, CHR 0x84, CHR 0xAA, CHR ''b''], [CHR 0xE2, CHR 0x84, CHR 0xAA, CHR ''B'']]"

definition rMB :: "string \<Rightarrow> bool" where
  "rMB = unitMatch [''mb'', ''mB'', ''Mb'', ''MB'']"

definition rGB :: "string \<Rightarrow> bool" where
  "rGB = unitMatch [''gb'', ''gB'', ''Gb'', ''GB'']"

definition rTB :: "string \<Rightarrow> bool" where
  "rTB = unitMatch [''tb'', ''tB'', ''Tb'', ''TB'']"

definition empt :: "string \<Rightarrow> bool" where
  "empt s = list_all (\<lambda>c. c \<in> set [CHR 0x0A, CHR 0x09, CHR 0x0D, CHR '' '', CHR ''0'', CHR ''.'', CHR 0x0C, CHR 0x07]) s"

datatype BufferError =
    NumErr NumError
  | InvalidBuffer string
  | SliceBoundsOutOfRange

text \<open>64-bit two's-complement wrap-around of \<open>buffer *= KB\<close>.\<close>

definition wrapInt64 :: "int \<Rightarrow> int" where
  "wrapInt64 x = (x + 2 ^ 63) mod 2 ^ 64 - 2 ^ 63"

text \<open>
  The parameter \<open>size\<close> of the source is \<open>size_arg\<close> here, and \<open>sz\<close>
  after the replacement of an empty value (\<open>size\<close> is a constant of HOL).
  One unit case of the \<open>switch\<close>: \<open>buffer, err = strconv.ParseInt(size[:lmt], 0, 64)\<close>
  followed by \<open>buffer *= unit\<close>. The slice expression panics when \<open>lmt\<close> is
  negative or beyond the string; the deferred \<open>recover\<close> turns the runtime
  error into the returned \<open>err\<close>, and \<open>buffer\<close> is still zero.
\<close>

definition parseUnit :: "string \<Rightarrow> int \<Rightarrow> int \<Rightarrow> int \<times> BufferError option" where
  "parseUnit sz lmt unit =
     (if lmt < 0 \<or> lmt > int (length sz) then (0, Some SliceBoundsOutOfRange)
      else
        (let (buffer, err) = ParseInt0 (take (nat lmt) sz)
         in (wrapInt64 (buffer * unit), map_option NumErr err)))"

definition bufferParser :: "string \<Rightarrow> string \<Rightarrow> int \<times> BufferError option" where
  "bufferParser size_arg rpl =
     (let lmt = int (length size_arg) - 2;
          sz = (if empt size_arg then rpl else size_arg)
      in if rB sz then (let (buffer, err) = ParseInt0 sz in (buffer, map_option NumErr err))
         else if rKB sz then parseUnit sz lmt (2 ^ 10)
         else if rMB sz then parseUnit sz lmt (2 ^ 20)
         else if rGB sz then parseUnit sz lmt (2 ^ 30)
         else if rTB sz then parseUnit sz lmt (2 ^ 40)
         else (0, Some (InvalidBuffer sz)))"

section \<open>Results of running Go code\<close>

text \<open>
  A Go call either returns, panics, or blocks on a channel operation that no
  other goroutine completes.
\<close>

datatype 'a run = Return 'a | Panics string | Blocks

datatype NetError = EOF | EPIPE | TimeoutError | Unreachable | Refused | OtherError

section \<open>Payload envelope\<close>

text \<open>
  The envelope functions of \<open>protocol.go\<close> are called by the sinks and the
  emitter, but the file is not among the sources; the functions that use them
  take them as a parameter.
\<close>

record Protocol =
  payloadMeta :: "string \<Rightarrow> string list"
  isOriginPayload :: "string \<Rightarrow> bool"
  isRequestPayload :: "string \<Rightarrow> bool"

text \<open>\<open>bytes.Split(s, sep)\<close> for a one-byte separator.\<close>

fun splitByte :: "char \<Rightarrow> string \<Rightarrow> string list" where
  "splitByte sep [] = [[]]"
| "splitByte sep (c # cs) =
     (if c = sep then [] # splitByte sep cs
      else (case splitByte sep cs of
              [] \<Rightarrow> [[c]]
            | f # fs \<Rightarrow> (c # f) # fs))"

text \<open>
  Modelled from the spec: \<open>payloadMeta\<close>, \<open>isOriginPayload\<close> and
  \<open>isRequestPayload\<close> of \<open>protocol.go\<close>. "Every payload begins with a
  fixed-layout ASCII header line of the form \<open><kind> <uuid> <nanos> <extra>\n\<close>",
  "\<open>kind \<in> {1=request, 2=response, 3=replayed-response}\<close>", and "\<open>classify\<close>
  inspects the first token only". The origin kinds are request and response.
\<close>

definition specProtocol :: Protocol where
  "specProtocol =
     \<lparr> payloadMeta = (\<lambda>payload. splitByte CHR '' '' (takeWhile (\<lambda>c. c \<noteq> CHR 0x0A) payload)),
       isOriginPayload = (\<lambda>payload. take 1 payload = ''1'' \<or> take 1 payload = ''2''),
       isRequestPayload = (\<lambda>payload. take 1 payload = ''1'') \<rparr>"

section \<open>TCP sink\<close>

text \<open>\<open>hash/fnv\<close>: the 32-bit FNV-1a hash.\<close>

definition offset32 :: "32 word" where
  "offset32 = 2166136261"

definition prime32 :: "32 word" where
  "prime32 = 16777619"

fun fnvWrite :: "32 word \<Rightarrow> string \<Rightarrow> 32 word" where
  "fnvWrite h [] = h"
| "fnvWrite h (c # cs) = fnvWrite ((h XOR of_nat (of_char c)) * prime32) cs"

definition fnv32a :: "string \<Rightarrow> 32 word" where
  "fnv32a s = fnvWrite offset32 s"

text \<open>Go's \<open>%\<close> on integers: the remainder of the division truncated towards zero.\<close>

definition goRem :: "int \<Rightarrow> int \<Rightarrow> int" where
  "goRem a b = sgn a * (\<bar>a\<bar> mod \<bar>b\<bar>)"

text \<open>
  A buffered channel of payloads: its capacity and the queued payloads, the
  next one to be received first. A send appends at the end and blocks while
  the channel is full; a receive blocks while it is empty.
\<close>

record Chan =
  capacity :: nat
  queue :: "string list"

record TCPOutputConfig =
  secure :: bool
  sticky :: bool

text \<open>
  \<open>workers\<close> lists the worker goroutines started so far, each by the index of
  the channel it drains. The statistics writer \<open>bufStats\<close> is left out.
\<close>

record TCPOutput =
  address :: string
  limit :: int
  buf :: "Chan list"
  config :: TCPOutputConfig
  workers :: "nat list"

definition NewTCPOutput :: "string \<Rightarrow> TCPOutputConfig \<Rightarrow> TCPOutput" where
  "NewTCPOutput addr cfg =
     (if sticky cfg
      then \<lparr> address = addr, limit = 0,
             buf = replicate 10 \<lparr> capacity = 100, queue = [] \<rparr>,
             config = cfg, workers = [0 ..< 10] \<rparr>
      else \<lparr> address = addr, limit = 0,
             buf = [\<lparr> capacity = 1000, queue = [] \<rparr>],
             config = cfg, workers = replicate 10 0 \<rparr>)"

text \<open>\<open>o.buf[i] <- data\<close>\<close>

definition chanSend :: "TCPOutput \<Rightarrow> int \<Rightarrow> string \<Rightarrow> TCPOutput run" where
  "chanSend o' i data =
     (if i < 0 \<or> i \<ge> int (length (buf o')) then Panics ''index out of range''
      else
        (let ch = buf o' ! nat i
         in if length (queue ch) \<ge> capacity ch then Blocks
            else Return (o'\<lparr>buf := (buf o')[nat i := ch\<lparr>queue := queue ch @ [data]\<rparr>]\<rparr>)))"

text \<open>\<open>data := <-o.buf[i]\<close>\<close>

definition chanReceive :: "TCPOutput \<Rightarrow> int \<Rightarrow> (string \<times> TCPOutput) run" where
  "chanReceive o' i =
     (if i < 0 \<or> i \<ge> int (length (buf o')) then Panics ''index out of range''
      else
        (let ch = buf o' ! nat i
         in case queue ch of
              [] \<Rightarrow> Blocks
            | data # rest \<Rightarrow> Return (data, o'\<lparr>buf := (buf o')[nat i := ch\<lparr>queue := rest\<rparr>]\<rparr>)))"

text \<open>
  \<open>getBufferIndex\<close>. \<open>int(hasher.Sum32())\<close> widens the unsigned 32-bit sum to
  the 64-bit \<open>int\<close>. Indexing \<open>payloadMeta(data)[1]\<close> panics when the envelope
  line has fewer than two fields.
\<close>

definition getBufferIndex :: "Protocol \<Rightarrow> TCPOutput \<Rightarrow> string \<Rightarrow> int run" where
  "getBufferIndex P o' data =
     (if \<not> sticky (config o') then Return 0
      else
        (let meta = payloadMeta P data
         in if length meta < 2 then Panics ''index out of range''
            else Return (goRem (uint (fnv32a (meta ! 1))) 10)))"

text \<open>
  \<open>TCPOutput.Write\<close>: the new state, the count and the error returned.
\<close>

definition TCPOutput_Write :: "Protocol \<Rightarrow> TCPOutput \<Rightarrow> string \<Rightarrow> (TCPOutput \<times> nat \<times> NetError option) run" where
  "TCPOutput_Write P o' data =
     (if \<not> isOriginPayload P data then Return (o', length data, None)
      else
        (case getBufferIndex P o' data of
           Panics m \<Rightarrow> Panics m
         | Blocks \<Rightarrow> Blocks
         | Return bufferIndex \<Rightarrow>
             (case chanSend o' bufferIndex data of
                Panics m \<Rightarrow> Panics m
              | Blocks \<Rightarrow> Blocks
              | Return o'' \<Rightarrow> Return (o'', length data, None))))"

text \<open>
  The body of the worker's delivery loop, in the two parts between which other
  goroutines run. First the receive. Then, after the two writes to the
  connection (\<open>sepErr\<close> is the error of the second one, the only one the
  code looks at): on an error the payload is sent back to the channel, a new
  worker is started for the same channel and this worker leaves the loop
  (\<open>True\<close>); otherwise it goes round again (\<open>False\<close>).
\<close>

definition workerReceive :: "TCPOutput \<Rightarrow> nat \<Rightarrow> (string \<times> TCPOutput) run" where
  "workerReceive o' bufferIndex = chanReceive o' (int bufferIndex)"

definition workerAfterWrite :: "TCPOutput \<Rightarrow> nat \<Rightarrow> string \<Rightarrow> NetError option \<Rightarrow> (bool \<times> TCPOutput) run" where
  "workerAfterWrite o' bufferIndex data sepErr =
     (case sepErr of
        None \<Rightarrow> Return (False, o')
      | Some _ \<Rightarrow>
          (case chanSend o' (int bufferIndex) data of
             Panics m \<Rightarrow> Panics m
           | Blocks \<Rightarrow> Blocks
           | Return o'' \<Rightarrow> Return (True, o''\<lparr>workers := workers o'' @ [bufferIndex]\<rparr>)))"

definition workerIteration :: "TCPOutput \<Rightarrow> nat \<Rightarrow> NetError option \<Rightarrow> (bool \<times> TCPOutput) run" where
  "workerIteration o' bufferIndex sepErr =
     (case workerReceive o' bufferIndex of
        Panics m \<Rightarrow> Panics m
      | Blocks \<Rightarrow> Blocks
      | Return (data, o'') \<Rightarrow> workerAfterWrite o'' bufferIndex data sepErr)"

section \<open>Replay HTTP client\<close>

text \<open>A call in the client returns or panics.\<close>

datatype 'a outcome = Returned 'a | Panicked string


definition CRLF :: string where
  "CRLF = [CHR 0x0D, CHR 0x0A]"

text \<open>
  Modelled from the spec: \<open>proto.EmptyLine\<close>, the separator that
  "\<open>empty_line_offset(buf)\<close>: index of \<open>\r\n\r\n\<close> or \<open>-1\<close>" searches for.
\<close>

definition EmptyLine :: string where
  "EmptyLine = CRLF @ CRLF"





text \<open>\<open>bytes.Index\<close>: the position of the first occurrence, \<open>None\<close> for \<open>-1\<close>.\<close>

fun bytesIndex :: "string \<Rightarrow> string \<Rightarrow> nat option" where
  "bytesIndex [] sep = (if sep = [] then Some 0 else None)"
| "bytesIndex (c # cs) sep =
     (if take (length sep) (c # cs) = sep then Some 0
      else map_option Suc (bytesIndex cs sep))"


record HTTPClientConfig =
  FollowRedirects :: int
  Debug :: bool
  OriginalHost :: bool
  ConnectionTimeout :: int
  Timeout :: int
  ResponseBufferSize :: int
  CompatibilityMode :: bool

record URL =
  Scheme :: string
  Host :: string
  User :: "string option"

text \<open>
  A connection, as far as the client can observe it. \<open>incoming\<close> is what the
  peer delivers after the request: each element is the bytes one \<open>Read\<close> finds
  and the error it reports with them. \<open>probes\<close> are the results of the
  one-byte reads of \<open>isAlive\<close>, and \<open>writeResults\<close> the errors of the
  successive \<open>Write\<close> calls (none left: the write succeeds). \<open>written\<close> logs
  what was written.
\<close>

record Conn =
  incoming :: "(string \<times> NetError option) list"
  probes :: "(string \<times> NetError option) list"
  writeResults :: "NetError option list"
  written :: "string list"

record HTTPClient =
  baseURL :: string
  scheme :: string
  host :: string
  auth :: string
  conn :: "Conn option"
  proxy :: "URL option"
  proxyAuth :: string
  respBuf :: string
  cfg :: HTTPClientConfig
  redirectsCount :: int











subsection \<open>Error payloads\<close>



definition HTTP_CONNECTION_TIMEOUT :: string where
  "HTTP_CONNECTION_TIMEOUT = ''522''"

definition HTTP_UNREACHABLE :: string where
  "HTTP_UNREACHABLE = ''523''"




subsection \<open>Connecting\<close>





subsection \<open>Reading the response\<close>

text \<open>
  The read deadline handed to \<open>SetReadDeadline\<close>: the full \<open>Timeout\<close> from
  now, or a fifth of it.
\<close>

datatype Deadline = FullTimeout | FifthTimeout

text \<open>
  The variables of \<open>send\<close> that its read loop works on, with the two fields of
  the client it touches: the connection (\<open>sock\<close>, and \<open>closed\<close> once
  \<open>Disconnect\<close> was called) and the response buffer (\<open>buffer\<close>).
\<close>

record ReadState =
  sock :: Conn
  closed :: bool
  buffer :: string
  readBytes :: nat
  err :: "NetError option"
  chunked :: bool
  contentLength :: int
  currentContentLength :: int
  chunks :: int
  timeout :: Deadline







subsection \<open>Sending a request\<close>







section \<open>Emitter\<close>

text \<open>The settings \<open>CopyMulty\<close> reads.\<close>

record AppSettings =
  copyBufferSize :: int
  splitOutput :: bool
  prettifyHTTP :: bool

text \<open>
  What \<open>CopyMulty\<close> calls outside the sources: the \<open>Rewrite\<close> method of the
  modifier (\<open>NewHTTPModifier\<close> gives \<open>nil\<close> when nothing is configured), the
  function \<open>prettifyHTTP\<close>, and the error that the \<open>Write\<close> of writer \<open>k\<close>
  returns for a payload.
\<close>

record EmitterEnv =
  modifier :: "(string \<Rightarrow> string) option"
  prettify :: "string \<Rightarrow> string"
  writeResult :: "nat \<Rightarrow> string \<Rightarrow> NetError option"

text \<open>
  The variables of \<open>CopyMulty\<close>. \<open>filteredRequests\<close> maps a request ID to the
  time of its entry, in nanoseconds; \<open>rounds\<close> is the counter \<open>i\<close>.
  \<open>outputs\<close> logs the calls of \<open>Write\<close>:
  the index of the writer and the payload.
\<close>

record CopyState =
  wIndex :: nat
  filteredRequests :: "string \<rightharpoonup> int"
  filteredRequestsLastCleanTime :: int
  rounds :: nat
  outputs :: "(nat \<times> string) list"

datatype LoopControl = Next | Stop "NetError option outcome"

definition sixtySeconds :: int where
  "sixtySeconds = 60 * 1000000000"

text \<open>
  The end of the loop body: every 1000 rounds, and at most once a minute, the
  entries older than a minute are dropped.
\<close>

definition housekeeping :: "CopyState \<Rightarrow> int \<Rightarrow> CopyState" where
  "housekeeping st clock =
     (let st = (if rounds st mod 1000 = 0 \<and> clock - filteredRequestsLastCleanTime st > sixtySeconds
                then st\<lparr>filteredRequests :=
                          (\<lambda>k. case filteredRequests st k of
                                 None \<Rightarrow> None
                               | Some v \<Rightarrow> if clock - v > sixtySeconds then None else Some v),
                        filteredRequestsLastCleanTime := clock\<rparr>
                else st)
      in st\<lparr>rounds := rounds st + 1\<rparr>)"

text \<open>The loop over the writers when the output is not split.\<close>

fun writeAll :: "EmitterEnv \<Rightarrow> CopyState \<Rightarrow> nat list \<Rightarrow> string \<Rightarrow> CopyState \<times> NetError option" where
  "writeAll env st [] payload = (st, None)"
| "writeAll env st (k # ks) payload =
     (let st = st\<lparr>outputs := outputs st @ [(k, payload)]\<rparr>
      in case writeResult env k payload of
           Some e \<Rightarrow> (st, Some e)
         | None \<Rightarrow> writeAll env st ks payload)"

definition fanOut :: "AppSettings \<Rightarrow> EmitterEnv \<Rightarrow> nat \<Rightarrow> CopyState \<Rightarrow> string \<Rightarrow> int \<Rightarrow>
    CopyState \<times> LoopControl" where
  "fanOut settings env writers st payload clock =
     (if splitOutput settings
      then
        (if wIndex st \<ge> writers then (st, Stop (Panicked ''index out of range''))
         else
           (let k = wIndex st;
                st = st\<lparr>outputs := outputs st @ [(k, payload)]\<rparr>
            in case writeResult env k payload of
                 Some e \<Rightarrow> (st, Stop (Returned (Some e)))
               | None \<Rightarrow>
                   (let st = st\<lparr>wIndex := wIndex st + 1\<rparr>;
                        st = (if wIndex st \<ge> writers then st\<lparr>wIndex := 0\<rparr> else st)
                    in (housekeeping st clock, Next))))
      else
        (case writeAll env st [0 ..< writers] payload of
           (st, Some e) \<Rightarrow> (st, Stop (Returned (Some e)))
         | (st, None) \<Rightarrow> (housekeeping st clock, Next)))"

text \<open>
  The loop body after the checks of the read error, for a read that reported
  \<open>data\<close> (\<open>nr\<close> is its length) at the time \<open>clock\<close>. \<open>IndexByte\<close> gives
  \<open>-1\<close> for a payload without a newline, so that \<open>headSize\<close> is \<open>0\<close>. Where the
  rewritten body has the length of the original one the source keeps
  \<open>payload\<close>; the rewrite is then taken to have happened in place, as the spec
  says of the edits of equal size.
\<close>

definition process :: "AppSettings \<Rightarrow> Protocol \<Rightarrow> EmitterEnv \<Rightarrow> nat \<Rightarrow> CopyState \<Rightarrow> string \<Rightarrow> int \<Rightarrow>
    CopyState \<times> LoopControl" where
  "process settings P env writers st data clock =
     (let nr = int (length data)
      in if nr > 0 \<and> copyBufferSize settings > nr
         then
           (let payload = data;
                meta = payloadMeta P payload
            in if length meta < 3 then (st, Next)
               else
                 (let requestID = meta ! 1;
                      emit = (\<lambda>st payload.
                        if prettifyHTTP settings
                        then (let payload = prettify env payload
                              in if length payload = 0 then (st, Next)
                                 else fanOut settings env writers st payload clock)
                        else fanOut settings env writers st payload clock)
                  in case modifier env of
                       None \<Rightarrow> emit st payload
                     | Some rewrite \<Rightarrow>
                         if isRequestPayload P payload
                         then
                           (let headSize = (case bytesIndex payload [CHR 0x0A] of
                                              None \<Rightarrow> 0 | Some k \<Rightarrow> k + 1);
                                body = rewrite (drop headSize payload)
                            in if length body = 0
                               then (st\<lparr>filteredRequests := (filteredRequests st)(requestID \<mapsto> clock)\<rparr>, Next)
                               else emit st (take headSize payload @ body))
                         else
                           (if filteredRequests st requestID \<noteq> None
                            then (st\<lparr>filteredRequests := (filteredRequests st)(requestID := None)\<rparr>, Next)
                            else emit st payload)))
         else (housekeeping st clock, Next))"

text \<open>
  \<open>CopyMulty\<close> over the results of the successive reads of \<open>src\<close>: the bytes
  reported, the error and the time. A read error other than \<open>EOF\<close> returns
  the result variable \<open>err\<close>, which nothing has set. A source with nothing
  more to read is at its end.
\<close>

fun copyLoop :: "AppSettings \<Rightarrow> Protocol \<Rightarrow> EmitterEnv \<Rightarrow> nat \<Rightarrow> CopyState \<Rightarrow>
    (string \<times> NetError option \<times> int) list \<Rightarrow> CopyState \<times> NetError option outcome" where
  "copyLoop settings P env writers st [] = (st, Returned None)"
| "copyLoop settings P env writers st ((data, er, clock) # reads) =
     (if er = Some EOF then (st, Returned None)
      else if er \<noteq> None then (st, Returned None)
      else
        (case process settings P env writers st data clock of
           (st', Next) \<Rightarrow> copyLoop settings P env writers st' reads
         | (st', Stop r) \<Rightarrow> (st', r)))"

definition CopyMulty :: "AppSettings \<Rightarrow> Protocol \<Rightarrow> EmitterEnv \<Rightarrow> nat \<Rightarrow> int \<Rightarrow>
    (string \<times> NetError option \<times> int) list \<Rightarrow> CopyState \<times> NetError option outcome" where
  "CopyMulty settings P env writers start reads =
     (let st = \<lparr>wIndex = 0, filteredRequests = Map.empty,
                 filteredRequestsLastCleanTime = start, rounds = 0, outputs = []\<rparr>
      in if copyBufferSize settings < 0 then (st, Panicked ''makeslice: len out of range'')
         else copyLoop settings P env writers st reads)"

section \<open>The message functions, from the spec\<close>

text \<open>
  Theorems about the client hold for every implementation of package
  \<open>proto\<close>; to run the client on concrete input the functions are modelled
  here.
\<close>

definition asciiLower :: "char \<Rightarrow> char" where
  "asciiLower c =
     (if 65 \<le> (of_char c :: nat) \<and> (of_char c :: nat) \<le> 90
      then char_of ((of_char c :: nat) + 32) else c)"

text \<open>The lines of a head: \<open>bytes.Split(s, "\r\n")\<close>.\<close>

fun splitCRLF :: "string \<Rightarrow> string list" where
  "splitCRLF [] = [[]]"
| "splitCRLF [c] = [[c]]"
| "splitCRLF (c # c' # cs) =
     (if c = CHR 0x0D \<and> c' = CHR 0x0A then [] # splitCRLF cs
      else (case splitCRLF (c' # cs) of
              [] \<Rightarrow> [[c]]
            | f # fs \<Rightarrow> (c # f) # fs))"


definition headOf :: "string \<Rightarrow> string" where
  "headOf payload =
     (case bytesIndex payload EmptyLine of None \<Rightarrow> payload | Some k \<Rightarrow> take k payload)"

definition headerMatches :: "string \<Rightarrow> string \<Rightarrow> bool" where
  "headerMatches name l =
     (CHR '':'' \<in> set l \<and>
      map asciiLower (takeWhile (\<lambda>c. c \<noteq> CHR '':'') l) = map asciiLower name)"







definition specSetHeader :: "string \<Rightarrow> string \<Rightarrow> string \<Rightarrow> string" where
  "specSetHeader payload name v =
     (let ls = splitCRLF (headOf payload);
          rest = drop (length (headOf payload)) payload;
          join = (\<lambda>ls. concat (map (\<lambda>l. l @ CRLF) (butlast ls)) @ last ls)
      in if find (headerMatches name) (tl ls) = None
         then join (take 1 ls @ [name @ '': '' @ v] @ drop 1 ls) @ rest
         else join (take 1 ls @ map (\<lambda>l. if headerMatches name l then name @ '': '' @ v else l) (drop 1 ls)) @ rest)"


section \<open>Properties of the read loop\<close>






section \<open>Inputs for the examples\<close>











section \<open>Proofs: indexed file names\<close>

lemma of_char_digitChar: "d < 10 \<Longrightarrow> (of_char (digitChar d) :: nat) = 48 + d"
  by (simp add: digitChar_def)

lemma isDigit_not_special:
  "isDigit c \<Longrightarrow> c \<noteq> CHR ''_'' \<and> c \<noteq> CHR ''.'' \<and> c \<noteq> CHR ''/'' \<and> c \<noteq> CHR ''-'' \<and> c \<noteq> CHR ''+''"
  by (auto simp: isDigit_def)

lemma isDigit_digitChar: "d < 10 \<Longrightarrow> isDigit (digitChar d)"
  by (simp add: isDigit_def of_char_digitChar)

lemma digitVal_digitChar: "d < 10 \<Longrightarrow> digitVal (digitChar d) = d"
  by (simp add: digitVal_def of_char_digitChar)

lemma decDigits_digits: "list_all isDigit (decDigits n)"
proof (induction n rule: decDigits.induct)
  case (1 n)
  show ?case
  proof (cases "n < 10")
    case True
    then show ?thesis by (subst decDigits.simps) (simp add: isDigit_digitChar)
  next
    case False
    then show ?thesis using 1 by (subst decDigits.simps) (simp add: isDigit_digitChar)
  qed
qed

lemma decDigits_nonempty: "decDigits n \<noteq> []"
  by (subst decDigits.simps) simp

lemma decValue_snoc: "decValue acc (xs @ [c]) = decValue acc xs * 10 + digitVal c"
  by (induction xs arbitrary: acc) auto

lemma decValue_decDigits: "decValue 0 (decDigits n) = n"
proof (induction n rule: decDigits.induct)
  case (1 n)
  show ?case
  proof (cases "n < 10")
    case True
    then show ?thesis by (subst decDigits.simps) (simp add: digitVal_digitChar)
  next
    case False
    then show ?thesis using 1
      by (subst decDigits.simps) (simp add: decValue_snoc digitVal_digitChar)
  qed
qed

lemma parseDec_decDigits: "parseDec (decDigits n) = Some n"
  by (simp add: parseDec_def decDigits_nonempty decDigits_digits decValue_decDigits)

lemma Atoi_Itoa: "inInt64 i \<Longrightarrow> Atoi (Itoa i) = (i, None)"
proof (cases "i < 0")
  case True
  assume "inInt64 i"
  with True show ?thesis
    by (simp add: Atoi_def Itoa_def parseDec_decDigits inInt64_def)
next
  case False
  assume r: "inInt64 i"
  obtain c cs where cs: "decDigits (nat i) = c # cs"
    using decDigits_nonempty [of "nat i"] by (cases "decDigits (nat i)") auto
  have "isDigit c" using decDigits_digits [of "nat i"] cs by simp
  then have "c \<noteq> CHR ''-''" "c \<noteq> CHR ''+''" using isDigit_not_special by blast+
  moreover have "parseDec (c # cs) = Some (nat i)" using parseDec_decDigits [of "nat i"] cs by simp
  ultimately show ?thesis using False r cs
    by (simp add: Atoi_def Itoa_def inInt64_def)
qed

lemma Itoa_chars:
  assumes "c \<in> set (Itoa i)"
  shows "c \<noteq> CHR ''_''" "c \<noteq> CHR ''.''" "c \<noteq> CHR ''/''"
proof -
  have "c = CHR ''-'' \<or> isDigit c"
    using assms decDigits_digits [of "nat i"] decDigits_digits [of "nat (- i)"]
    by (auto simp: Itoa_def list_all_iff split: if_splits)
  then show "c \<noteq> CHR ''_''" "c \<noteq> CHR ''.''" "c \<noteq> CHR ''/''"
    using isDigit_not_special by auto
qed

lemma Atoi_chars:
  assumes "snd (Atoi s) = None" "c \<in> set s"
  shows "c \<noteq> CHR ''.'' \<and> c \<noteq> CHR ''/''"
proof -
  obtain a as where s: "s = a # as" using assms(1) by (cases s) (auto simp: Atoi_def)
  have "(a = CHR ''-'' \<or> a = CHR ''+'' \<or> isDigit a) \<and> list_all isDigit as"
    using assms(1) unfolding s
    by (auto simp: Atoi_def parseDec_def Let_def split: if_splits option.splits)
  then show ?thesis using assms(2) s isDigit_not_special
    by (auto simp: list_all_iff)
qed

lemma dropWhile_all: "\<forall>c\<in>set xs. P c \<Longrightarrow> dropWhile P (xs @ ys) = dropWhile P ys"
  by (induction xs) auto

lemma takeWhile_all: "\<forall>c\<in>set xs. P c \<Longrightarrow> takeWhile P (xs @ ys) = xs @ takeWhile P ys"
  by (induction xs) auto

lemma Ext_append_plain:
  assumes "\<forall>c\<in>set y. c \<noteq> CHR ''.'' \<and> c \<noteq> CHR ''/''"
  shows "Ext (x @ y) = (if Ext x = [] then [] else Ext x @ y)"
proof -
  let ?P = "\<lambda>c. c \<noteq> CHR ''.'' \<and> c \<noteq> CHR ''/''"
  have a: "\<forall>c\<in>set (rev y). ?P c" using assms by simp
  have d: "dropWhile ?P (rev y @ rev x) = dropWhile ?P (rev x)"
    by (rule dropWhile_all [OF a])
  have t: "takeWhile ?P (rev y @ rev x) = rev y @ takeWhile ?P (rev x)"
    by (rule takeWhile_all [OF a])
  have r: "rev (x @ y) = rev y @ rev x" by simp
  show ?thesis
  proof (cases "dropWhile ?P (rev x)")
    case Nil
    show ?thesis unfolding Ext_def r d t Nil by simp
  next
    case (Cons c cs)
    show ?thesis unfolding Ext_def r d t Cons by simp
  qed
qed

lemma Ext_shape:
  "Ext p = [] \<or> (\<exists>t. Ext p = CHR ''.'' # t \<and> (\<forall>c\<in>set t. c \<noteq> CHR ''.'' \<and> c \<noteq> CHR ''/''))"
proof -
  let ?P = "\<lambda>c. c \<noteq> CHR ''.'' \<and> c \<noteq> CHR ''/''"
  define t where "t = takeWhile ?P (rev p)"
  define d where "d = dropWhile ?P (rev p)"
  have x: "Ext p = (case d of [] \<Rightarrow> [] | c # _ \<Rightarrow> if c = CHR ''.'' then CHR ''.'' # rev t else [])"
    unfolding Ext_def t_def d_def ..
  have tk: "\<forall>c\<in>set (rev t). ?P c"
  proof
    fix c assume "c \<in> set (rev t)"
    then have "c \<in> set (takeWhile ?P (rev p))" by (simp add: t_def)
    then show "?P c" by (rule set_takeWhileD [THEN conjunct2])
  qed
  show ?thesis
  proof (cases d)
    case Nil
    then show ?thesis using x by simp
  next
    case (Cons c cs)
    show ?thesis
    proof (cases "c = CHR ''.''")
      case True
      then have "Ext p = CHR ''.'' # rev t" using x Cons by simp
      then show ?thesis using tk by blast
    next
      case False
      then show ?thesis using x Cons by simp
    qed
  qed
qed

lemma Ext_dot_suffix:
  assumes "\<forall>c\<in>set t. c \<noteq> CHR ''.'' \<and> c \<noteq> CHR ''/''"
  shows "Ext (x @ CHR ''.'' # t) = CHR ''.'' # t"
proof -
  let ?P = "\<lambda>c. c \<noteq> CHR ''.'' \<and> c \<noteq> CHR ''/''"
  have a: "\<forall>c\<in>set (rev t). ?P c" using assms by simp
  have r: "rev (x @ CHR ''.'' # t) = rev t @ CHR ''.'' # rev x" by simp
  have d: "dropWhile ?P (rev t @ CHR ''.'' # rev x) = CHR ''.'' # rev x"
    using dropWhile_all [OF a, of "CHR ''.'' # rev x"] by simp
  have tk: "takeWhile ?P (rev t @ CHR ''.'' # rev x) = rev t"
    using takeWhile_all [OF a, of "CHR ''.'' # rev x"] by simp
  show ?thesis unfolding Ext_def r d tk by simp
qed

lemma rev_split: "rev p = t @ d \<Longrightarrow> p = rev d @ rev t"
  by (metis rev_append rev_rev_ident)

lemma Ext_is_suffix: "\<exists>w. p = w @ Ext p"
proof -
  let ?P = "\<lambda>c. c \<noteq> CHR ''.'' \<and> c \<noteq> CHR ''/''"
  define t where "t = takeWhile ?P (rev p)"
  define d where "d = dropWhile ?P (rev p)"
  have "rev p = t @ d" by (simp add: t_def d_def)
  then have e: "p = rev d @ rev t" by (rule rev_split)
  have x: "Ext p = (case d of [] \<Rightarrow> [] | c # _ \<Rightarrow> if c = CHR ''.'' then CHR ''.'' # rev t else [])"
    unfolding Ext_def t_def d_def ..
  show ?thesis
  proof (cases d)
    case Nil
    then have "Ext p = []" using x by simp
    then show ?thesis by simp
  next
    case (Cons c cs)
    show ?thesis
    proof (cases "c = CHR ''.''")
      case True
      have "Ext p = CHR ''.'' # rev t" using x Cons True by simp
      moreover have "rev d @ rev t = rev cs @ (CHR ''.'' # rev t)" using Cons True by simp
      ultimately have "p = rev cs @ Ext p" using e by simp
      then show ?thesis ..
    next
      case False
      then have "Ext p = []" using x Cons by simp
      then show ?thesis by simp
    qed
  qed
qed

lemma TrimSuffix_append: "TrimSuffix (w @ e) e = w"
  by (simp add: TrimSuffix_def HasSuffix_def)

lemma LastIndex_append:
  assumes "c \<notin> set ds"
  shows "LastIndex (w @ c # ds) c = int (length w)"
proof -
  have a: "\<forall>x\<in>set (rev ds). x \<noteq> c" using assms by auto
  have "takeWhile (\<lambda>x. x \<noteq> c) (rev ds @ c # rev w) = rev ds"
    using takeWhile_all [OF a, of "c # rev w"] by simp
  then show ?thesis by (simp add: LastIndex_def)
qed

lemma LastIndex_split:
  assumes "LastIndex s c \<noteq> - 1"
  shows "\<exists>w ds. s = w @ c # ds \<and> c \<notin> set ds \<and> LastIndex s c = int (length w)"
proof -
  have m: "c \<in> set s" using assms by (auto simp: LastIndex_def split: if_splits)
  then obtain w ds where s: "s = w @ c # ds" and n: "c \<notin> set ds"
    using split_list_last [OF m] by blast
  have "LastIndex s c = int (length w)" unfolding s by (rule LastIndex_append [OF n])
  then show ?thesis using s n by auto
qed

lemma indexStem_tail:
  "\<exists>tl. TrimSuffix p (Ext p) = indexStem p @ tl \<and> (\<forall>c\<in>set tl. c \<noteq> CHR ''.'' \<and> c \<noteq> CHR ''/'')"
proof -
  define w where "w = TrimSuffix p (Ext p)"
  show ?thesis
  proof (cases "LastIndex w CHR ''_'' \<noteq> - 1")
    case False
    then have "indexStem p = w" by (simp add: indexStem_def w_def)
    then show ?thesis unfolding w_def [symmetric] by simp
  next
    case True
    then obtain u ds where s: "w = u @ CHR ''_'' # ds"
      and l: "LastIndex w CHR ''_'' = int (length u)"
      using LastIndex_split [of w "CHR ''_''"] by blast
    have d: "drop (nat (LastIndex w CHR ''_'' + 1)) w = ds"
      unfolding l unfolding s by (simp add: nat_add_distrib)
    show ?thesis
    proof (cases "snd (Atoi ds)")
      case (Some e)
      then obtain v where "Atoi ds = (v, Some e)" by (cases "Atoi ds") auto
      then have "indexStem p = w"
        using True d by (simp add: indexStem_def w_def [symmetric] Let_def)
      then show ?thesis unfolding w_def [symmetric] by simp
    next
      case None
      then obtain v where "Atoi ds = (v, None)" by (cases "Atoi ds") auto
      then have "indexStem p = take (length u) w"
        using True d l by (simp add: indexStem_def w_def [symmetric] Let_def)
      then have "indexStem p = u" using s by simp
      moreover have "\<forall>c\<in>set (CHR ''_'' # ds). c \<noteq> CHR ''.'' \<and> c \<noteq> CHR ''/''"
        using Atoi_chars [OF None] by auto
      ultimately show ?thesis unfolding w_def [symmetric] using s by blast
    qed
  qed
qed

lemma Ext_setFileIndex: "Ext (setFileIndex p n) = Ext p"
proof -
  have y: "\<forall>c\<in>set (CHR ''_'' # Itoa n). c \<noteq> CHR ''.'' \<and> c \<noteq> CHR ''/''"
    using Itoa_chars [of _ n] by auto
  from Ext_shape [of p] show ?thesis
  proof
    assume e: "Ext p = []"
    obtain tl where t: "TrimSuffix p (Ext p) = indexStem p @ tl"
      and tp: "\<forall>c\<in>set tl. c \<noteq> CHR ''.'' \<and> c \<noteq> CHR ''/''"
      using indexStem_tail [of p] by blast
    have "p = indexStem p @ tl" using t e by (simp add: TrimSuffix_def HasSuffix_def)
    then have "Ext p = Ext (indexStem p @ tl)" by simp
    then have "Ext (indexStem p) = []"
      using e Ext_append_plain [OF tp, of "indexStem p"] by (simp split: if_splits)
    then have "Ext (indexStem p @ CHR ''_'' # Itoa n) = []"
      using Ext_append_plain [OF y, of "indexStem p"] by simp
    then show ?thesis using e by (simp add: setFileIndex_def)
  next
    assume "\<exists>t. Ext p = CHR ''.'' # t \<and> (\<forall>c\<in>set t. c \<noteq> CHR ''.'' \<and> c \<noteq> CHR ''/'')"
    then obtain t where e: "Ext p = CHR ''.'' # t"
      and tp: "\<forall>c\<in>set t. c \<noteq> CHR ''.'' \<and> c \<noteq> CHR ''/''" by blast
    have "setFileIndex p n = (indexStem p @ CHR ''_'' # Itoa n) @ CHR ''.'' # t"
      by (simp add: setFileIndex_def e)
    then show ?thesis
      using Ext_dot_suffix [OF tp, of "indexStem p @ CHR ''_'' # Itoa n"] e by simp
  qed
qed

lemma withoutExt_setFileIndex:
  "TrimSuffix (setFileIndex p n) (Ext (setFileIndex p n)) = indexStem p @ CHR ''_'' # Itoa n"
proof -
  have "setFileIndex p n = (indexStem p @ CHR ''_'' # Itoa n) @ Ext p"
    by (simp add: setFileIndex_def)
  then show ?thesis
    unfolding Ext_setFileIndex using TrimSuffix_append by metis
qed

lemma LastIndex_setFileIndex:
  "LastIndex (indexStem p @ CHR ''_'' # Itoa n) CHR ''_'' = int (length (indexStem p))"
proof (rule LastIndex_append)
  show "CHR ''_'' \<notin> set (Itoa n)" using Itoa_chars(1) [of "CHR ''_''" n] by blast
qed

text \<open>
  C6: reading the index of a name that \<open>setFileIndex\<close> produced gives back the
  index that was set, for every path and every index of the 64-bit \<open>int\<close>;
  the extension and the name without extension and index are those of the
  original path, and the index stands immediately before the extension (at
  the end when there is none).
\<close>

theorem getFileIndex_setFileIndex:
  assumes "inInt64 n"
  shows "getFileIndex (setFileIndex p n) = n
    \<and> Ext (setFileIndex p n) = Ext p
    \<and> indexStem (setFileIndex p n) = indexStem p
    \<and> setFileIndex p n = indexStem p @ ''_'' @ Itoa n @ Ext p"
proof -
  have d: "drop (nat (int (length (indexStem p)) + 1)) (indexStem p @ CHR ''_'' # Itoa n) = Itoa n"
    by (simp add: nat_add_distrib)
  have t: "take (nat (int (length (indexStem p)))) (indexStem p @ CHR ''_'' # Itoa n) = indexStem p"
    by simp
  have a: "Atoi (Itoa n) = (n, None)" by (rule Atoi_Itoa [OF assms])
  have g: "getFileIndex (setFileIndex p n) = n"
    unfolding getFileIndex_def withoutExt_setFileIndex LastIndex_setFileIndex Let_def d a
    by simp
  have s: "indexStem (setFileIndex p n) = indexStem p"
    unfolding indexStem_def [of "setFileIndex p n"] withoutExt_setFileIndex
      LastIndex_setFileIndex Let_def d a t
    by simp
  show ?thesis using g s Ext_setFileIndex by (simp add: setFileIndex_def)
qed

text \<open>The theorem at the path \<open>/tmp/logs_0.gz\<close> and the index 10.\<close>

theorem getFileIndex_setFileIndex_witness:
  "inInt64 10 \<and> getFileIndex (setFileIndex ''/tmp/logs_0.gz'' 10) = 10
    \<and> Ext (setFileIndex ''/tmp/logs_0.gz'' 10) = Ext ''/tmp/logs_0.gz''
    \<and> indexStem (setFileIndex ''/tmp/logs_0.gz'' 10) = indexStem ''/tmp/logs_0.gz''
    \<and> setFileIndex ''/tmp/logs_0.gz'' 10 = indexStem ''/tmp/logs_0.gz'' @ ''_'' @ Itoa 10 @ Ext ''/tmp/logs_0.gz''"
proof -
  have h: "inInt64 10" by (simp add: inInt64_def minInt64_def maxInt64_def)
  show ?thesis by (rule conjI [OF h getFileIndex_setFileIndex [OF h]])
qed

section \<open>Proofs: buffer-size parser\<close>

lemma bufferParser_ignores_rpl:
  assumes "\<not> empt s"
  shows "bufferParser s rpl = bufferParser s rpl'"
  using assms by (simp add: bufferParser_def)

lemma bufferParser_42mb: "bufferParser ''42mb'' rpl = (42 * 2 ^ 20, None)"
proof -
  have "\<not> empt ''42mb''" by code_simp
  then have "bufferParser ''42mb'' rpl = bufferParser ''42mb'' ''0''"
    by (rule bufferParser_ignores_rpl)
  also have "\<dots> = (42 * 2 ^ 20, None)" by code_simp
  finally show ?thesis .
qed

lemma bufferParser_0x12gB: "bufferParser ''0x12gB'' rpl = (18 * 2 ^ 30, None)"
proof -
  have "\<not> empt ''0x12gB''" by code_simp
  then have "bufferParser ''0x12gB'' rpl = bufferParser ''0x12gB'' ''0''"
    by (rule bufferParser_ignores_rpl)
  also have "\<dots> = (18 * 2 ^ 30, None)" by code_simp
  finally show ?thesis .
qed

lemma bufferParser_1024: "bufferParser ''1024'' rpl = (1024, None)"
proof -
  have "\<not> empt ''1024''" by code_simp
  then have "bufferParser ''1024'' rpl = bufferParser ''1024'' ''0''"
    by (rule bufferParser_ignores_rpl)
  also have "\<dots> = (1024, None)" by code_simp
  finally show ?thesis .
qed

lemma bufferParser_0b111: "bufferParser ''0b111'' rpl = (7, None)"
proof -
  have "\<not> empt ''0b111''" by code_simp
  then have "bufferParser ''0b111'' rpl = bufferParser ''0b111'' ''0''"
    by (rule bufferParser_ignores_rpl)
  also have "\<dots> = (7, None)" by code_simp
  finally show ?thesis .
qed

lemma bufferParser_blank_plain_default:
  assumes "empt s" and "rB rpl"
  shows "bufferParser s rpl = bufferParser rpl rpl"
  using assms by (simp add: bufferParser_def Let_def)

lemma bufferParser_blank_test_default:
  "bufferParser [] ''0'' = (0, None)"
  "bufferParser [CHR 0x0A, CHR 0x09, CHR '' '', CHR 0x0D] ''0'' = (0, None)"
  by code_simp+

text \<open>
  C7: the four values of the claim are those of the lemmas above, and an
  empty or blank input gives the parse of a default that is a plain number.
  With a default that carries a unit the claim fails on the code: \<open>lmt\<close> is
  computed from the input before the default replaces it, so that the empty
  input with the default \<open>32mb\<close> ends in the recovered panic of
  \<open>size[:lmt]\<close> and is returned as an error, and three blanks give 3 MB,
  where the default alone parses to 32 MB.
\<close>

theorem bufferParser_empty_with_unit_default:
  "bufferParser [] ''32mb'' = (0, Some SliceBoundsOutOfRange)
   \<and> bufferParser ''   '' ''32mb'' = (3 * 2 ^ 20, None)
   \<and> bufferParser ''32mb'' ''32mb'' = (32 * 2 ^ 20, None)"
  by code_simp

section \<open>Proofs: TCP sink\<close>

lemma goRem_nonneg: "0 \<le> a \<Longrightarrow> goRem a 10 = a mod 10"
  by (auto simp: goRem_def sgn_if)

lemma goRem_uint: "goRem (uint (w :: 32 word)) 10 = int (unat w mod 10)"
proof -
  have "goRem (uint w) 10 = uint w mod 10" by (rule goRem_nonneg) simp
  then show ?thesis by (simp add: zmod_int)
qed

lemma chanSend_room:
  assumes "i < length (buf o')" "length (queue (buf o' ! i)) < capacity (buf o' ! i)"
  shows "chanSend o' (int i) data =
    Return (o'\<lparr>buf := (buf o')[i := (buf o' ! i)\<lparr>queue := queue (buf o' ! i) @ [data]\<rparr>]\<rparr>)"
  using assms by (simp add: chanSend_def Let_def)

lemma chanSend_full:
  assumes "i < length (buf o')" "capacity (buf o' ! i) \<le> length (queue (buf o' ! i))"
  shows "chanSend o' (int i) data = Blocks"
  using assms by (simp add: chanSend_def Let_def)

text \<open>
  C5: with sticky mode on, the buffer index of a payload is the FNV-1a hash of
  its UUID field (the second field of the envelope line) modulo 10; two origin
  payloads with the same UUID get the same index, and \<open>Write\<close> appends both
  to the queue of that channel and leaves the other nine channels alone.
\<close>

theorem sticky_same_uuid_same_channel:
  assumes st: "sticky (config o')"
    and len: "length (buf o') = 10"
    and m1: "2 \<le> length (payloadMeta P d1)" and m2: "2 \<le> length (payloadMeta P d2)"
    and uuid: "payloadMeta P d1 ! 1 = payloadMeta P d2 ! 1"
    and o1: "isOriginPayload P d1" and o2: "isOriginPayload P d2"
    and i: "i = unat (fnv32a (payloadMeta P d1 ! 1)) mod 10"
    and room: "length (queue (buf o' ! i)) + 2 \<le> capacity (buf o' ! i)"
  shows "getBufferIndex P o' d1 = Return (int i)
    \<and> getBufferIndex P o' d2 = Return (int i)
    \<and> (\<exists>oa ob. TCPOutput_Write P o' d1 = Return (oa, length d1, None)
          \<and> TCPOutput_Write P oa d2 = Return (ob, length d2, None)
          \<and> queue (buf ob ! i) = queue (buf o' ! i) @ [d1, d2]
          \<and> (\<forall>j < 10. j \<noteq> i \<longrightarrow> buf ob ! j = buf o' ! j))"
proof -
  have il: "i < length (buf o')" using i len by simp
  have g1: "getBufferIndex P o' d1 = Return (int i)"
    using st m1 i by (simp add: getBufferIndex_def Let_def goRem_uint)
  have g2: "\<And>x. sticky (config x) \<Longrightarrow> getBufferIndex P x d2 = Return (int i)"
    using m2 i uuid by (simp add: getBufferIndex_def Let_def goRem_uint)
  define oa where "oa = o'\<lparr>buf := (buf o')[i := (buf o' ! i)\<lparr>queue := queue (buf o' ! i) @ [d1]\<rparr>]\<rparr>"
  define ob where "ob = oa\<lparr>buf := (buf oa)[i := (buf oa ! i)\<lparr>queue := queue (buf oa ! i) @ [d2]\<rparr>]\<rparr>"
  have s1: "chanSend o' (int i) d1 = Return oa"
    unfolding oa_def using il room by (intro chanSend_room) auto
  have ila: "i < length (buf oa)" using il by (simp add: oa_def)
  have qa: "queue (buf oa ! i) = queue (buf o' ! i) @ [d1]" "capacity (buf oa ! i) = capacity (buf o' ! i)"
    using il by (simp_all add: oa_def)
  have s2: "chanSend oa (int i) d2 = Return ob"
    unfolding ob_def using ila room qa by (intro chanSend_room) auto
  have sa: "sticky (config oa)" using st by (simp add: oa_def)
  have w1: "TCPOutput_Write P o' d1 = Return (oa, length d1, None)"
    using o1 g1 s1 by (simp add: TCPOutput_Write_def)
  have w2: "TCPOutput_Write P oa d2 = Return (ob, length d2, None)"
    using o2 g2 [OF sa] s2 by (simp add: TCPOutput_Write_def)
  have q: "queue (buf ob ! i) = queue (buf o' ! i) @ [d1, d2]"
    using il by (simp add: ob_def oa_def)
  have r: "\<forall>j < 10. j \<noteq> i \<longrightarrow> buf ob ! j = buf o' ! j"
    by (simp add: ob_def oa_def)
  show ?thesis using g1 g2 [OF st] w1 w2 q r by blast
qed

text \<open>
  C9: for a payload that is not of an origin kind, \<open>Write\<close> returns the
  length of the data and no error, and the sink, with all its channels, is
  unchanged.
\<close>

theorem non_origin_payload_not_enqueued:
  assumes "\<not> isOriginPayload P data"
  shows "TCPOutput_Write P o' data = Return (o', length data, None)"
  using assms by (simp add: TCPOutput_Write_def)

text \<open>The theorem at a replayed response (kind 3) and a fresh sticky sink.\<close>

theorem non_origin_payload_not_enqueued_witness:
  "\<not> isOriginPayload specProtocol ''3 aa 1 1''
   \<and> TCPOutput_Write specProtocol (NewTCPOutput ''replay:28020'' \<lparr>secure = False, sticky = True\<rparr>) ''3 aa 1 1''
       = Return (NewTCPOutput ''replay:28020'' \<lparr>secure = False, sticky = True\<rparr>, length ''3 aa 1 1'', None)"
proof -
  have h: "\<not> isOriginPayload specProtocol ''3 aa 1 1''" by (simp add: specProtocol_def)
  show ?thesis by (rule conjI [OF h non_origin_payload_not_enqueued [OF h]])
qed

text \<open>
  C4, as the code has it: when the write of the separator fails, the worker
  sends the payload in flight back to its channel, where it is appended behind
  the payloads pending at that moment; the send blocks while the channel is
  full, and once it is through a replacement worker is started for the same
  channel and the failed worker leaves its loop. Without an error the worker
  goes round again and the sink is unchanged.
\<close>

theorem worker_requeue_at_tail:
  assumes "bufferIndex < length (buf o')"
  shows "workerAfterWrite o' bufferIndex data None = Return (False, o')
    \<and> workerAfterWrite o' bufferIndex data (Some e) =
       (if capacity (buf o' ! bufferIndex) \<le> length (queue (buf o' ! bufferIndex)) then Blocks
        else Return (True,
          o'\<lparr>buf := (buf o')[bufferIndex :=
                 (buf o' ! bufferIndex)\<lparr>queue := queue (buf o' ! bufferIndex) @ [data]\<rparr>],
              workers := workers o' @ [bufferIndex]\<rparr>))"
  using assms by (simp add: workerAfterWrite_def chanSend_def Let_def)

text \<open>
  C4 as stated fails: with the payloads \<open>1 a\<close> and \<open>1 b\<close> pending and
  the write of \<open>1 a\<close> failing, the channel holds \<open>1 b\<close> before \<open>1 a\<close>
  afterwards, and the next payload delivered from it is \<open>1 b\<close>.
\<close>

theorem worker_requeue_not_at_head:
  "workerIteration
     \<lparr>address = ''replay:28020'', limit = 0,
      buf = [\<lparr>capacity = 1000, queue = [''1 a'', ''1 b'']\<rparr>],
      config = \<lparr>secure = False, sticky = False\<rparr>, workers = [0]\<rparr> 0 (Some EPIPE)
   = Return (True,
     \<lparr>address = ''replay:28020'', limit = 0,
      buf = [\<lparr>capacity = 1000, queue = [''1 b'', ''1 a'']\<rparr>],
      config = \<lparr>secure = False, sticky = False\<rparr>, workers = [0, 0]\<rparr>)
   \<and> workerReceive
     \<lparr>address = ''replay:28020'', limit = 0,
      buf = [\<lparr>capacity = 1000, queue = [''1 b'', ''1 a'']\<rparr>],
      config = \<lparr>secure = False, sticky = False\<rparr>, workers = [0, 0]\<rparr> 0
   = Return (''1 b'',
     \<lparr>address = ''replay:28020'', limit = 0,
      buf = [\<lparr>capacity = 1000, queue = [''1 a'']\<rparr>],
      config = \<lparr>secure = False, sticky = False\<rparr>, workers = [0, 0]\<rparr>)
   \<and> ''1 b'' \<noteq> ''1 a''"
  by (simp add: workerIteration_def workerReceive_def workerAfterWrite_def chanReceive_def chanSend_def)

text \<open>
  The theorem at a request and its response with the UUID \<open>abc\<close>, whose
  hash is 1 modulo 10, and a fresh sticky sink.
\<close>

theorem sticky_same_uuid_same_channel_witness:
  "sticky (config (NewTCPOutput ''replay:28020'' \<lparr>secure = False, sticky = True\<rparr>))
   \<and> length (buf (NewTCPOutput ''replay:28020'' \<lparr>secure = False, sticky = True\<rparr>)) = 10
   \<and> 2 \<le> length (payloadMeta specProtocol (''1 abc 1 -1'' @ [CHR 0x0A] @ ''GET / HTTP/1.1''))
   \<and> 2 \<le> length (payloadMeta specProtocol (''2 abc 2 5'' @ [CHR 0x0A] @ ''HTTP/1.1 200 OK''))
   \<and> payloadMeta specProtocol (''1 abc 1 -1'' @ [CHR 0x0A] @ ''GET / HTTP/1.1'') ! 1
       = payloadMeta specProtocol (''2 abc 2 5'' @ [CHR 0x0A] @ ''HTTP/1.1 200 OK'') ! 1
   \<and> isOriginPayload specProtocol (''1 abc 1 -1'' @ [CHR 0x0A] @ ''GET / HTTP/1.1'')
   \<and> isOriginPayload specProtocol (''2 abc 2 5'' @ [CHR 0x0A] @ ''HTTP/1.1 200 OK'')
   \<and> getBufferIndex specProtocol (NewTCPOutput ''replay:28020'' \<lparr>secure = False, sticky = True\<rparr>)
         (''1 abc 1 -1'' @ [CHR 0x0A] @ ''GET / HTTP/1.1'') = Return 1
   \<and> getBufferIndex specProtocol (NewTCPOutput ''replay:28020'' \<lparr>secure = False, sticky = True\<rparr>)
         (''2 abc 2 5'' @ [CHR 0x0A] @ ''HTTP/1.1 200 OK'') = Return 1"
proof -
  let ?o = "NewTCPOutput ''replay:28020'' \<lparr>secure = False, sticky = True\<rparr>"
  let ?d1 = "''1 abc 1 -1'' @ [CHR 0x0A] @ ''GET / HTTP/1.1''"
  let ?d2 = "''2 abc 2 5'' @ [CHR 0x0A] @ ''HTTP/1.1 200 OK''"
  have m1: "payloadMeta specProtocol ?d1 = [''1'', ''abc'', ''1'', ''-1'']"
    by (simp add: specProtocol_def)
  have m2: "payloadMeta specProtocol ?d2 = [''2'', ''abc'', ''2'', ''5'']"
    by (simp add: specProtocol_def)
  have h1: "sticky (config ?o)" by (simp add: NewTCPOutput_def)
  have h2: "length (buf ?o) = 10" by (simp add: NewTCPOutput_def)
  have h3: "2 \<le> length (payloadMeta specProtocol ?d1)" unfolding m1 by simp
  have h4: "2 \<le> length (payloadMeta specProtocol ?d2)" unfolding m2 by simp
  have h5: "payloadMeta specProtocol ?d1 ! 1 = payloadMeta specProtocol ?d2 ! 1"
    unfolding m1 m2 by simp
  have h6: "isOriginPayload specProtocol ?d1" by (simp add: specProtocol_def)
  have h7: "isOriginPayload specProtocol ?d2" by (simp add: specProtocol_def)
  have v: "unat (fnv32a ''abc'') mod 10 = 1" by (simp add: fnv32a_def offset32_def prime32_def)
  have h8: "(1::nat) = unat (fnv32a (payloadMeta specProtocol ?d1 ! 1)) mod 10"
    unfolding m1 using v by simp
  have h9: "length (queue (buf ?o ! 1)) + 2 \<le> capacity (buf ?o ! 1)"
    by (simp add: NewTCPOutput_def)
  note t = sticky_same_uuid_same_channel [OF h1 h2 h3 h4 h5 h6 h7 h8 h9]
  from t have g1: "getBufferIndex specProtocol ?o ?d1 = Return 1" by simp
  from t have g2: "getBufferIndex specProtocol ?o ?d2 = Return 1" by simp
  show ?thesis using h1 h2 h3 h4 h5 h6 h7 g1 g2 by blast
qed

text \<open>
  The theorem at a fresh sink without sticky mode and a failed write of
  \<open>1 a\<close>.
\<close>

theorem worker_requeue_at_tail_witness:
  "(0::nat) < length (buf (NewTCPOutput ''replay:28020'' \<lparr>secure = False, sticky = False\<rparr>))
   \<and> workerAfterWrite (NewTCPOutput ''replay:28020'' \<lparr>secure = False, sticky = False\<rparr>) 0 ''1 a'' (Some EPIPE)
     = Return (True,
        \<lparr>address = ''replay:28020'', limit = 0,
         buf = [\<lparr>capacity = 1000, queue = [''1 a'']\<rparr>],
         config = \<lparr>secure = False, sticky = False\<rparr>, workers = replicate 10 0 @ [0]\<rparr>)"
proof -
  have h: "(0::nat) < length (buf (NewTCPOutput ''replay:28020'' \<lparr>secure = False, sticky = False\<rparr>))"
    by (simp add: NewTCPOutput_def)
  show ?thesis
    using h worker_requeue_at_tail [OF h, of "''1 a''" EPIPE]
    by (simp add: NewTCPOutput_def)
qed

section \<open>Proofs: error payloads and the parts of Send\<close>



















section \<open>Proofs: the read loop\<close>
























section \<open>Proofs: the claims on the replay client\<close>














section \<open>Proofs: emitter\<close>

lemma housekeeping_outputs: "outputs (housekeeping st clock) = outputs st"
  by (simp add: housekeeping_def Let_def)

lemma housekeeping_filtered:
  "filteredRequests (housekeeping st clock) k = Some v \<Longrightarrow> filteredRequests st k = Some v"
  by (auto simp: housekeeping_def Let_def split: if_splits option.splits)

lemma process_skips:
  assumes "\<not> (0 < length data \<and> int (length data) < copyBufferSize settings)"
  shows "process settings P env writers st data clock = (housekeeping st clock, Next)"
  using assms by (auto simp: process_def Let_def)

lemma writeAll_outputs:
  assumes "writeAll env st ks payload = (st', r)"
  shows "\<forall>x \<in> set (outputs st'). x \<in> set (outputs st) \<or> snd x = payload"
  using assms
proof (induction ks arbitrary: st)
  case Nil
  then show ?case by simp
next
  case (Cons k ks)
  define st1 where "st1 = st\<lparr>outputs := outputs st @ [(k, payload)]\<rparr>"
  show ?case
  proof (cases "writeResult env k payload")
    case (Some e)
    then have "st' = st1" using Cons.prems by (simp add: st1_def Let_def)
    then show ?thesis by (auto simp: st1_def)
  next
    case None
    then have "writeAll env st1 ks payload = (st', r)"
      using Cons.prems by (simp add: st1_def Let_def)
    then have "\<forall>x \<in> set (outputs st'). x \<in> set (outputs st1) \<or> snd x = payload"
      by (rule Cons.IH)
    then show ?thesis by (auto simp: st1_def)
  qed
qed

lemma fanOut_outputs:
  assumes "fanOut settings env writers st payload clock = (st', r)"
  shows "\<forall>x \<in> set (outputs st'). x \<in> set (outputs st) \<or> snd x = payload"
proof (cases "splitOutput settings")
  case True
  then show ?thesis using assms
    by (auto simp: fanOut_def Let_def housekeeping_outputs split: if_splits option.splits)
next
  case False
  obtain st1 r1 where w: "writeAll env st [0 ..< writers] payload = (st1, r1)"
    by (cases "writeAll env st [0 ..< writers] payload")
  have "st' = st1 \<or> st' = housekeeping st1 clock"
    using assms False w by (auto simp: fanOut_def split: option.splits)
  then show ?thesis using writeAll_outputs [OF w] by (auto simp: housekeeping_outputs)
qed

lemma process_outputs_plain:
  assumes "modifier env = None" "\<not> prettifyHTTP settings"
    and "process settings P env writers st data clock = (st', r)"
  shows "\<forall>x \<in> set (outputs st'). x \<in> set (outputs st)
      \<or> (snd x = data \<and> int (length data) < copyBufferSize settings)"
proof (cases "0 < length data \<and> int (length data) < copyBufferSize settings")
  case False
  then have "st' = housekeeping st clock" using assms(3) process_skips [OF False] by simp
  then show ?thesis by (simp add: housekeeping_outputs)
next
  case True
  show ?thesis
  proof (cases "length (payloadMeta P data) < 3")
    case short: True
    then have "st' = st" using assms True by (auto simp: process_def Let_def)
    then show ?thesis by simp
  next
    case False
    then have "fanOut settings env writers st data clock = (st', r)"
      using assms True by (auto simp: process_def Let_def)
    then show ?thesis using fanOut_outputs True by blast
  qed
qed

lemma copyLoop_outputs_plain:
  assumes "modifier env = None" "\<not> prettifyHTTP settings"
  shows "copyLoop settings P env writers st reads = (st', r) \<Longrightarrow>
    \<forall>x \<in> set (outputs st'). x \<in> set (outputs st) \<or> int (length (snd x)) < copyBufferSize settings"
proof (induction reads arbitrary: st)
  case Nil
  then show ?case by simp
next
  case (Cons rd reads)
  obtain data er clock where rd: "rd = (data, er, clock)" by (cases rd)
  show ?case
  proof (cases "er = None")
    case False
    then have "st' = st" using Cons.prems rd by (auto split: if_splits)
    then show ?thesis by simp
  next
    case True
    obtain st1 r1 where p: "process settings P env writers st data clock = (st1, r1)"
      by (cases "process settings P env writers st data clock")
    note po = process_outputs_plain [OF assms p]
    show ?thesis
    proof (cases r1)
      case Next
      then have "copyLoop settings P env writers st1 reads = (st', r)"
        using Cons.prems rd True p by simp
      then have "\<forall>x \<in> set (outputs st'). x \<in> set (outputs st1)
          \<or> int (length (snd x)) < copyBufferSize settings"
        by (rule Cons.IH)
      then show ?thesis using po by blast
    next
      case (Stop x)
      then have "st' = st1" using Cons.prems rd True p by simp
      then show ?thesis using po by blast
    qed
  qed
qed

text \<open>
  C10, as the code has it. A read that is empty or not shorter than the copy
  buffer is passed over: nothing is written to a writer, and
  \<open>filteredRequests\<close> gets no new entry (the housekeeping may drop old
  ones). Without a modifier and without \<open>prettifyHTTP\<close> every payload
  written to a writer is shorter than the copy buffer.
\<close>

theorem CopyMulty_drops_oversized_reads:
  "(\<not> (0 < length data \<and> int (length data) < copyBufferSize settings) \<longrightarrow>
      process settings P env writers st data clock = (housekeeping st clock, Next)
      \<and> outputs (housekeeping st clock) = outputs st
      \<and> (\<forall>k v. filteredRequests (housekeeping st clock) k = Some v \<longrightarrow> filteredRequests st k = Some v))
   \<and> (modifier env = None \<and> \<not> prettifyHTTP settings \<longrightarrow>
      (\<forall>x \<in> set (outputs (fst (CopyMulty settings P env writers start reads))).
         int (length (snd x)) < copyBufferSize settings))"
proof (intro conjI impI)
  assume a: "\<not> (0 < length data \<and> int (length data) < copyBufferSize settings)"
  show "process settings P env writers st data clock = (housekeeping st clock, Next)"
    by (rule process_skips [OF a])
  show "outputs (housekeeping st clock) = outputs st" by (rule housekeeping_outputs)
  show "\<forall>k v. filteredRequests (housekeeping st clock) k = Some v \<longrightarrow> filteredRequests st k = Some v"
    using housekeeping_filtered by blast
next
  assume b: "modifier env = None \<and> \<not> prettifyHTTP settings"
  define st0 where "st0 = \<lparr>wIndex = 0, filteredRequests = Map.empty,
      filteredRequestsLastCleanTime = start, rounds = 0, outputs = []\<rparr>"
  show "\<forall>x \<in> set (outputs (fst (CopyMulty settings P env writers start reads))).
         int (length (snd x)) < copyBufferSize settings"
  proof (cases "copyBufferSize settings < 0")
    case True
    then show ?thesis by (simp add: CopyMulty_def Let_def)
  next
    case False
    obtain st' r where c: "copyLoop settings P env writers st0 reads = (st', r)"
      by (cases "copyLoop settings P env writers st0 reads")
    have "CopyMulty settings P env writers start reads = (st', r)"
      using False c by (simp add: CopyMulty_def Let_def st0_def)
    moreover have "\<forall>x \<in> set (outputs st'). x \<in> set (outputs st0)
        \<or> int (length (snd x)) < copyBufferSize settings"
      using copyLoop_outputs_plain [OF conjunct1 [OF b] conjunct2 [OF b] c] .
    ultimately show ?thesis by (simp add: st0_def)
  qed
qed

text \<open>
  C10 as stated fails in its last part: with a modifier that sets a header, a
  read of 27 bytes under a copy buffer of 32 bytes is forwarded as a payload
  of 44 bytes.
\<close>

theorem CopyMulty_forwards_rewritten_payload:
  "outputs (fst (CopyMulty \<lparr>copyBufferSize = 32, splitOutput = False, prettifyHTTP = False\<rparr>
       specProtocol
       \<lparr>modifier = Some (\<lambda>body. specSetHeader body ''User-Agent'' ''Gor''),
        prettify = (\<lambda>p. p), writeResult = (\<lambda>k p. None)\<rparr>
       1 0
       [(''1 a 1 -1'' @ [CHR 0x0A] @ ''GET / HTTP/1.1'' @ CRLF @ CRLF, None, 0)]))
     = [(0, ''1 a 1 -1'' @ [CHR 0x0A] @ ''GET / HTTP/1.1'' @ CRLF @ ''User-Agent: Gor'' @ CRLF @ CRLF)]
   \<and> length (''1 a 1 -1'' @ [CHR 0x0A] @ ''GET / HTTP/1.1'' @ CRLF @ CRLF) = 27
   \<and> \<not> int (length (''1 a 1 -1'' @ [CHR 0x0A] @ ''GET / HTTP/1.1'' @ CRLF @ ''User-Agent: Gor'' @ CRLF @ CRLF)) < 32"
  by code_simp

text \<open>
  The theorem at a read of 32 bytes under a copy buffer of 32 bytes, and a run
  without modifier over a request and that read.
\<close>

theorem CopyMulty_drops_oversized_reads_witness:
  "\<not> (0 < length (replicate 32 CHR ''x'') \<and> int (length (replicate 32 CHR ''x'')) < copyBufferSize \<lparr>copyBufferSize = 32, splitOutput = False, prettifyHTTP = False\<rparr>)
   \<and> process \<lparr>copyBufferSize = 32, splitOutput = False, prettifyHTTP = False\<rparr> specProtocol
        \<lparr>modifier = None, prettify = (\<lambda>p. p), writeResult = (\<lambda>k p. None)\<rparr> 1
        \<lparr>wIndex = 0, filteredRequests = Map.empty, filteredRequestsLastCleanTime = 0, rounds = 0, outputs = []\<rparr>
        (replicate 32 CHR ''x'') 0
      = (housekeeping \<lparr>wIndex = 0, filteredRequests = Map.empty, filteredRequestsLastCleanTime = 0, rounds = 0, outputs = []\<rparr> 0, Next)
   \<and> modifier \<lparr>modifier = None, prettify = (\<lambda>p. p), writeResult = (\<lambda>k p. None)\<rparr> = None
   \<and> \<not> prettifyHTTP \<lparr>copyBufferSize = 32, splitOutput = False, prettifyHTTP = False\<rparr>
   \<and> list_all (\<lambda>x. int (length (snd x)) < copyBufferSize \<lparr>copyBufferSize = 32, splitOutput = False, prettifyHTTP = False\<rparr>)
        (outputs (fst (CopyMulty \<lparr>copyBufferSize = 32, splitOutput = False, prettifyHTTP = False\<rparr>
          specProtocol \<lparr>modifier = None, prettify = (\<lambda>p. p), writeResult = (\<lambda>k p. None)\<rparr> 1 0
          [(''1 a 1 -1'' @ [CHR 0x0A] @ ''GET / HTTP/1.1'' @ CRLF @ CRLF, None, 0),
           (replicate 32 CHR ''x'', None, 1)])))"
proof -
  let ?S = "\<lparr>copyBufferSize = 32, splitOutput = False, prettifyHTTP = False\<rparr>"
  let ?E = "\<lparr>modifier = None, prettify = (\<lambda>p. p), writeResult = (\<lambda>k p. None)\<rparr>"
  have h1: "\<not> (0 < length (replicate 32 CHR ''x'') \<and> int (length (replicate 32 CHR ''x'')) < copyBufferSize ?S)"
    by simp
  have h2: "modifier ?E = None \<and> \<not> prettifyHTTP ?S" by simp
  note t = CopyMulty_drops_oversized_reads [of "replicate 32 CHR ''x''" ?S specProtocol ?E 1
      "\<lparr>wIndex = 0, filteredRequests = Map.empty, filteredRequestsLastCleanTime = 0, rounds = 0, outputs = []\<rparr>"
      0 0 "[(''1 a 1 -1'' @ [CHR 0x0A] @ ''GET / HTTP/1.1'' @ CRLF @ CRLF, None, 0),
           (replicate 32 CHR ''x'', None, 1)]"]
  show ?thesis unfolding list_all_iff using h1 h2 t by blast
qed

lemma CopyMulty_example_outputs:
  "outputs (fst (CopyMulty \<lparr>copyBufferSize = 32, splitOutput = False, prettifyHTTP = False\<rparr>
          specProtocol \<lparr>modifier = None, prettify = (\<lambda>p. p), writeResult = (\<lambda>k p. None)\<rparr> 1 0
          [(''1 a 1 -1'' @ [CHR 0x0A] @ ''GET / HTTP/1.1'' @ CRLF @ CRLF, None, 0),
           (replicate 32 CHR ''x'', None, 1)]))
   = [(0, ''1 a 1 -1'' @ [CHR 0x0A] @ ''GET / HTTP/1.1'' @ CRLF @ CRLF)]"
  by code_simp


end
